theory Spec2Isabelle
  imports Main
begin

section \<open>Strings\<close>

text \<open>
  A JavaScript string is a sequence of UTF-16 code units. The model covers the strings
  whose code units are below 256 (ASCII and the Latin-1 supplement): a \<^typ>\<open>char\<close> is
  one code unit, \<open>of_char\<close> its number. On this range \<open>String.prototype.toLowerCase\<close>
  maps \<open>A-Z\<close> (65-90) and the capital letters 192-222 other than the multiplication sign
  215 to the code unit 32 above, and leaves every other code unit alone; the class \<open>\s\<close>
  of a regular expression holds exactly tab, line feed, vertical tab, form feed, carriage
  return, space and the no-break space 160. Beyond this range lowercasing can change the
  number of code units of a string, so no fact below rests on \<open>toLowerCase\<close> working
  character by character or keeping the length: the tokens of a query are always those
  of the lowercased query.
\<close>

definition isWhitespace :: "char \<Rightarrow> bool" where
  "isWhitespace c = ((of_char c :: nat) \<in> set [9, 10, 11, 12, 13, 32, 160])"

definition isUpperCase :: "char \<Rightarrow> bool" where
  "isUpperCase c = (let n = (of_char c :: nat) in
     (65 \<le> n \<and> n \<le> 90) \<or> (192 \<le> n \<and> n \<le> 222 \<and> n \<noteq> 215))"

definition toLowerChar :: "char \<Rightarrow> char" where
  "toLowerChar c = (if isUpperCase c then char_of ((of_char c :: nat) + 32) else c)"

definition toLowerCase :: "string \<Rightarrow> string" where
  "toLowerCase s = map toLowerChar s"

text \<open>
  \<open>s.split(/\s+/)\<close>: the pieces of \<open>s\<close> between the maximal runs of whitespace. A run
  at the start or at the end of \<open>s\<close> leaves an empty piece there, and the empty string
  splits into one empty piece. \<open>split_from cur s\<close> holds in \<open>cur\<close> the piece read so far.
\<close>

function split_from :: "string \<Rightarrow> string \<Rightarrow> string list" where
  "split_from cur [] = [cur]"
| "split_from cur (c # cs) =
     (if isWhitespace c then cur # split_from [] (dropWhile isWhitespace cs)
      else split_from (cur @ [c]) cs)"
  by pat_completeness auto
termination
  by (relation "measure (\<lambda>(cur, s). length s)")
     (auto simp: length_dropWhile_le less_Suc_eq_le)

definition split_whitespace :: "string \<Rightarrow> string list" where
  "split_whitespace s = split_from [] s"

text \<open>The character class \<open>[a-zA-Z0-9]\<close>.\<close>

definition isAlnum :: "char \<Rightarrow> bool" where
  "isAlnum c = (let n = (of_char c :: nat) in
     (97 \<le> n \<and> n \<le> 122) \<or> (65 \<le> n \<and> n \<le> 90) \<or> (48 \<le> n \<and> n \<le> 57))"

text \<open>\<open>word.match(/^[^a-zA-Z0-9]+$/)\<close>: one or more characters, none of them in the class.\<close>

definition matchesPunctuation :: "string \<Rightarrow> bool" where
  "matchesPunctuation word = (word \<noteq> [] \<and> list_all (\<lambda>c. \<not> isAlnum c) word)"

text \<open>
  \<open>s.substring(0, end)\<close> for an integral \<open>end\<close>: the end is clamped into \<open>0 .. s.length\<close>
  and the string cut there. JavaScript numbers are doubles; the model holds the integral
  ones as \<^typ>\<open>int\<close>.
\<close>

definition substring0 :: "string \<Rightarrow> int \<Rightarrow> string" where
  "substring0 s end = take (nat (min (max end 0) (int (length s)))) s"

text \<open>\<open>instanceUrl.replace(/\/$/, '')\<close>: one slash at the very end is removed.\<close>

definition stripTrailingSlash :: "string \<Rightarrow> string" where
  "stripTrailingSlash s = (if s \<noteq> [] \<and> last s = CHR ''/'' then butlast s else s)"

text \<open>
  \<open>a || b\<close> on a string that may be absent (\<open>None\<close> is \<open>undefined\<close>): an absent and an
  empty string are falsy.
\<close>

definition js_or_opt :: "string option \<Rightarrow> string option \<Rightarrow> string option" where
  "js_or_opt a b = (case a of None \<Rightarrow> b | Some s \<Rightarrow> if s = [] then b else Some s)"

definition js_or :: "string option \<Rightarrow> string \<Rightarrow> string" where
  "js_or a b = (case a of None \<Rightarrow> b | Some s \<Rightarrow> if s = [] then b else s)"

section \<open>Keyword extraction\<close>

definition stopWords :: "string list" where
  "stopWords = [''how'', ''do'', ''i'', ''to'', ''the'', ''a'', ''an'', ''and'', ''or'', ''but'',
     ''in'', ''on'', ''at'', ''what'', ''where'', ''when'', ''why'', ''which'', ''who'', ''whom'',
     ''whose'', ''can'', ''could'', ''should'', ''would'', ''will'']"

definition extractKeywords :: "string \<Rightarrow> string list" where
  "extractKeywords query =
     filter (\<lambda>word. length word > 2 \<and> word \<notin> set stopWords \<and> \<not> matchesPunctuation word)
       (split_whitespace (toLowerCase query))"

subsection \<open>The extraction as the specification words it\<close>

text \<open>
  The tokens of a string are its maximal runs of characters that are not whitespace; a
  token is dropped when it has at most two characters, or is one of the listed stopwords,
  or has no alphanumeric character.
\<close>

function spec_tokens :: "string \<Rightarrow> string list" where
  "spec_tokens s =
     (case dropWhile isWhitespace s of
        [] \<Rightarrow> []
      | c # cs \<Rightarrow>
          (c # takeWhile (\<lambda>x. \<not> isWhitespace x) cs)
            # spec_tokens (dropWhile (\<lambda>x. \<not> isWhitespace x) cs))"
  by pat_completeness auto
termination
proof (relation "measure length", simp, goal_cases)
  case (1 s c cs)
  have "length (dropWhile (\<lambda>x. \<not> isWhitespace x) cs) \<le> length cs"
    by (rule length_dropWhile_le)
  moreover have "length (c # cs) \<le> length s"
    using length_dropWhile_le [of isWhitespace s] 1 by simp
  ultimately show ?case by simp
qed

definition spec_stopwords :: "string list" where
  "spec_stopwords = [''how'', ''do'', ''i'', ''to'', ''the'', ''a'', ''an'', ''and'', ''or'',
     ''but'', ''in'', ''on'', ''at'', ''what'', ''where'', ''when'', ''why'', ''which'', ''who'',
     ''whom'', ''whose'', ''can'', ''could'', ''should'', ''would'', ''will'']"

definition spec_dropped :: "string \<Rightarrow> bool" where
  "spec_dropped t =
     (length t \<le> 2 \<or> t \<in> set spec_stopwords \<or> list_all (\<lambda>c. \<not> isAlnum c) t)"

definition spec_extractKeywords :: "string \<Rightarrow> string list" where
  "spec_extractKeywords query =
     filter (\<lambda>t. \<not> spec_dropped t) (spec_tokens (toLowerCase query))"

section \<open>Configuration, upstream calls and errors\<close>

record config =
  apiKey :: string
  instanceUrl :: string

text \<open>
  The upstream wiki answers two calls. The model covers the answers that keep to the
  types of its interface: a search hit is \<open>{document: {id, title, urlId}, context}\<close>, and
  these fields, like the \<open>text\<close> of a document, are strings where present (\<open>None\<close> is an
  absent field). What the code does with an answer that has no body, no array of hits or
  no \<open>document\<close> in a hit is part of the model.
\<close>

record doc_ref =
  doc_id :: "string option"
  doc_title :: "string option"
  doc_urlId :: "string option"

record hit =
  hit_document :: "doc_ref option"
  hit_context :: "string option"

text \<open>
  What \<open>response.data.data\<close> of a search holds: nothing (\<open>undefined\<close>, \<open>null\<close>), a value
  that is no array, or an array of hits.
\<close>

datatype search_data = DataAbsent | DataNotArray | DataArray "hit list"

text \<open>
  What a detail fetch yields: \<open>null\<close>, \<open>undefined\<close> (an answer with no \<open>data\<close> field), or a
  document, a truthy value, with its \<open>text\<close> field if it has one.
\<close>

datatype fetched = FNull | FUndefined | FDocument "string option"

text \<open>
  A rejected call carries \<open>error.response?.data?.message\<close> and \<open>error.message\<close>. A
  resolved call carries \<open>response.data.data\<close>, or \<open>None\<close> when \<open>response.data\<close> itself is
  \<open>null\<close>.
\<close>

datatype axios_error = AxiosError "string option" string

datatype search_response = SearchRejected axios_error | SearchResolved "search_data option"

datatype info_response = InfoRejected axios_error | InfoResolved "fetched option"

record search_request =
  sr_url :: string
  sr_authorization :: string
  sr_query :: string
  sr_limit :: int
  sr_offset :: int
  sr_statusFilter :: "string list"

record info_request =
  ir_url :: string
  ir_authorization :: string
  ir_id :: "string option"

text \<open>
  The upstream service is a state \<open>'w\<close> with one transition per call, so that an answer
  may depend on every call made before. The calls of one run are recorded, in the order
  they are issued, with their answers.
\<close>

record 'w upstream =
  search_post :: "'w \<Rightarrow> search_request \<Rightarrow> search_response \<times> 'w"
  info_post :: "'w \<Rightarrow> info_request \<Rightarrow> info_response \<times> 'w"

datatype event = SearchCall search_request search_response | InfoCall info_request info_response

datatype ErrorCode = MethodNotFound | InvalidParams | InternalError

text \<open>
  What can be thrown: an \<open>McpError\<close> with its code and message, a \<open>TypeError\<close> for a
  property read on \<open>null\<close> or \<open>undefined\<close> (the value and the property are kept), and
  the rejection of an upstream call.
\<close>

datatype exn = McpError ErrorCode string | TypeError string string | Axios axios_error

type_synonym ('a, 'w) run = "(exn + 'a) \<times> 'w \<times> event list"

record document_summary =
  res_id :: string
  res_title :: string
  res_text :: string
  res_url :: string

section \<open>Document detail fetch\<close>

text \<open>The body of the \<open>try\<close> block of \<open>getDocument\<close>, then the function with its \<open>catch\<close>.\<close>

definition infoRequest :: "config \<Rightarrow> string option \<Rightarrow> info_request" where
  "infoRequest cfg documentId =
     \<lparr>ir_url = stripTrailingSlash (instanceUrl cfg) @ ''/api/documents.info'',
      ir_authorization = ''Bearer '' @ apiKey cfg,
      ir_id = documentId\<rparr>"

definition getDocument_try ::
  "config \<Rightarrow> 'w upstream \<Rightarrow> 'w \<Rightarrow> string option \<Rightarrow> (fetched, 'w) run" where
  "getDocument_try cfg up w documentId =
     (let req = infoRequest cfg documentId in
      case info_post up w req of
        (response, w') \<Rightarrow>
          ((case response of
              InfoRejected e \<Rightarrow> Inl (Axios e)
            | InfoResolved None \<Rightarrow> Inl (TypeError ''null'' ''data'')
            | InfoResolved (Some v) \<Rightarrow> Inr v),
           w', [InfoCall req response]))"

definition getDocument ::
  "config \<Rightarrow> 'w upstream \<Rightarrow> 'w \<Rightarrow> string option \<Rightarrow> (fetched, 'w) run" where
  "getDocument cfg up w documentId =
     (case getDocument_try cfg up w documentId of
        (Inl error, w', evs) \<Rightarrow> (Inr FNull, w', evs)
      | (Inr v, w', evs) \<Rightarrow> (Inr v, w', evs))"

section \<open>Search with fallback\<close>

text \<open>
  The object built for one hit. Its text is the fetched document's when the fetch gave a
  document (a truthy value), the hit's own context otherwise; its URL is built on the
  configured \<open>instanceUrl\<close>.
\<close>

definition summarise ::
  "config \<Rightarrow> hit \<Rightarrow> doc_ref \<Rightarrow> fetched \<Rightarrow> int \<Rightarrow> document_summary" where
  "summarise cfg result doc fullDoc maxChars =
     \<lparr>res_id = js_or (doc_id doc) [],
      res_title = js_or (doc_title doc) [],
      res_text =
        (case fullDoc of
           FDocument text \<Rightarrow> substring0 (js_or text []) maxChars
         | _ \<Rightarrow> substring0 (js_or (hit_context result) []) maxChars),
      res_url = instanceUrl cfg @ ''/doc/''
        @ js_or (js_or_opt (doc_urlId doc) (doc_id doc)) []\<rparr>"

text \<open>
  The callback mapped over the hits of one search call. \<open>doc.id\<close> on a hit with no
  \<open>document\<close> throws before any call is made.
\<close>

definition processHit ::
  "config \<Rightarrow> 'w upstream \<Rightarrow> int \<Rightarrow> 'w \<Rightarrow> hit \<Rightarrow> (document_summary, 'w) run" where
  "processHit cfg up maxChars w result =
     (case hit_document result of
        None \<Rightarrow> (Inl (TypeError ''undefined'' ''id''), w, [])
      | Some doc \<Rightarrow>
          (case getDocument cfg up w (doc_id doc) of
             (Inl error, w', evs) \<Rightarrow> (Inl error, w', evs)
           | (Inr fullDoc, w', evs) \<Rightarrow>
               (Inr (summarise cfg result doc fullDoc maxChars), w', evs)))"

text \<open>
  \<open>response.data.data.map(async ...)\<close> starts the callback on every hit, in order; the
  detail fetches are taken by the upstream service in the order they are issued.
  \<open>Promise.all\<close> then gives the list of results, or the first rejection.
\<close>

fun mapHits ::
  "config \<Rightarrow> 'w upstream \<Rightarrow> int \<Rightarrow> 'w \<Rightarrow> hit list
     \<Rightarrow> (exn + document_summary) list \<times> 'w \<times> event list" where
  "mapHits cfg up maxChars w [] = ([], w, [])"
| "mapHits cfg up maxChars w (result # rest) =
     (case processHit cfg up maxChars w result of
        (r, w1, evs1) \<Rightarrow>
          (case mapHits cfg up maxChars w1 rest of
             (rs, w2, evs2) \<Rightarrow> (r # rs, w2, evs1 @ evs2)))"

fun promiseAll :: "(exn + 'a) list \<Rightarrow> exn + 'a list" where
  "promiseAll [] = Inr []"
| "promiseAll (Inl error # rs) = Inl error"
| "promiseAll (Inr x # rs) =
     (case promiseAll rs of Inl error \<Rightarrow> Inl error | Inr xs \<Rightarrow> Inr (x # xs))"

definition searchRequest :: "config \<Rightarrow> string \<Rightarrow> int \<Rightarrow> search_request" where
  "searchRequest cfg searchTerm topK =
     \<lparr>sr_url = stripTrailingSlash (instanceUrl cfg) @ ''/api/documents.search'',
      sr_authorization = ''Bearer '' @ apiKey cfg,
      sr_query = searchTerm,
      sr_limit = topK,
      sr_offset = 0,
      sr_statusFilter = [''published'']\<rparr>"

text \<open>
  The loop \<open>for (i = 0; i < keywords.length && documents.length === 0; i++)\<close>, on the
  keywords from index \<open>i\<close> on and the documents gathered so far.
\<close>

fun searchLoop ::
  "config \<Rightarrow> 'w upstream \<Rightarrow> int \<Rightarrow> int \<Rightarrow> 'w \<Rightarrow> string list \<Rightarrow> document_summary list
     \<Rightarrow> (document_summary list, 'w) run" where
  "searchLoop cfg up topK maxChars w [] documents = (Inr documents, w, [])"
| "searchLoop cfg up topK maxChars w (searchTerm # rest) documents =
     (if documents \<noteq> [] then (Inr documents, w, [])
      else
        (let req = searchRequest cfg searchTerm topK in
         case search_post up w req of
           (response, w1) \<Rightarrow>
             (case response of
                SearchRejected e \<Rightarrow> (Inl (Axios e), w1, [SearchCall req response])
              | SearchResolved None \<Rightarrow>
                  (Inl (TypeError ''null'' ''data''), w1, [SearchCall req response])
              | SearchResolved (Some (DataArray hits)) \<Rightarrow>
                  (case mapHits cfg up maxChars w1 hits of
                     (rs, w2, evs) \<Rightarrow>
                       (case promiseAll rs of
                          Inl error \<Rightarrow> (Inl error, w2, SearchCall req response # evs)
                        | Inr results \<Rightarrow>
                            (case searchLoop cfg up topK maxChars w2 rest (documents @ results) of
                               (out, w3, evs') \<Rightarrow>
                                 (out, w3, SearchCall req response # evs @ evs'))))
              | SearchResolved (Some other) \<Rightarrow>
                  (case searchLoop cfg up topK maxChars w1 rest documents of
                     (out, w3, evs') \<Rightarrow> (out, w3, SearchCall req response # evs')))))"

text \<open>The \<open>catch\<close> of \<open>searchDocuments\<close>: an upstream rejection becomes an internal error.\<close>

definition translateError :: "config \<Rightarrow> exn \<Rightarrow> exn" where
  "translateError cfg error =
     (case error of
        Axios (AxiosError responseMessage message) \<Rightarrow>
          McpError InternalError
            (''Outline API error: '' @ js_or responseMessage message
               @ '' (URL: '' @ instanceUrl cfg @ '')'')
      | _ \<Rightarrow> error)"

definition searchDocuments ::
  "config \<Rightarrow> 'w upstream \<Rightarrow> 'w \<Rightarrow> string \<Rightarrow> int \<Rightarrow> int \<Rightarrow> (document_summary list, 'w) run" where
  "searchDocuments cfg up w query topK maxChars =
     (let keywords = extractKeywords query in
      case searchLoop cfg up topK maxChars w keywords [] of
        (Inl error, w', evs) \<Rightarrow> (Inl (translateError cfg error), w', evs)
      | (Inr documents, w', evs) \<Rightarrow> (Inr documents, w', evs))"

section \<open>The tool handler\<close>

text \<open>
  The values a request can carry, with \<open>typeof\<close> and truthiness. A number is an integral
  one; an object is the list of its properties, read at the first entry for a name.
\<close>

datatype jsval =
  JUndefined | JNull | JBool bool | JNum int | JStr string
  | JArr "jsval list" | JObj "(string \<times> jsval) list"

fun typeof :: "jsval \<Rightarrow> string" where
  "typeof JUndefined = ''undefined''"
| "typeof JNull = ''object''"
| "typeof (JBool b) = ''boolean''"
| "typeof (JNum n) = ''number''"
| "typeof (JStr s) = ''string''"
| "typeof (JArr xs) = ''object''"
| "typeof (JObj kvs) = ''object''"

fun truthy :: "jsval \<Rightarrow> bool" where
  "truthy JUndefined = False"
| "truthy JNull = False"
| "truthy (JBool b) = b"
| "truthy (JNum n) = (n \<noteq> 0)"
| "truthy (JStr s) = (s \<noteq> [])"
| "truthy (JArr xs) = True"
| "truthy (JObj kvs) = True"

text \<open>
  Reading one of the properties \<open>query\<close>, \<open>top_k\<close>, \<open>max_chars\<close> of a value that is neither
  \<open>null\<close> nor \<open>undefined\<close>: an object gives the property it holds, any other value gives
  \<open>undefined\<close>.
\<close>

fun getProp :: "jsval \<Rightarrow> string \<Rightarrow> jsval" where
  "getProp (JObj kvs) k = (case map_of kvs k of None \<Rightarrow> JUndefined | Some v \<Rightarrow> v)"
| "getProp v k = JUndefined"

record call_tool_request =
  tool_name :: string
  arguments :: jsval

text \<open>
  The handler answers with one content block whose text is the JSON of the documents;
  the model keeps the documents.
\<close>

datatype tool_result = TextContent "document_summary list"

text \<open>
  The \<open>try\<close> and \<open>catch\<close> of the handler around the search: an \<open>McpError\<close> is thrown
  again as it is, anything else becomes an internal error that quotes the error as a
  string. The handler tests \<open>typeof args.query !== 'string'\<close>, and \<open>typeof\<close> of a
  number \<open>=== 'number'\<close>: the cases on the value say the same.
\<close>

definition wrapError :: "exn \<Rightarrow> exn" where
  "wrapError error =
     (case error of
        McpError code message \<Rightarrow> McpError code message
      | TypeError v p \<Rightarrow>
          McpError InternalError
            (''Failed to search documents: TypeError: Cannot read properties of '' @ v
               @ '' (reading '' @ [CHR 0x27] @ p @ [CHR 0x27] @ '')'')
      | Axios (AxiosError responseMessage message) \<Rightarrow>
          McpError InternalError (''Failed to search documents: AxiosError: '' @ message))"

definition respond :: "(document_summary list, 'w) run \<Rightarrow> (tool_result, 'w) run" where
  "respond r =
     (case r of
        (Inl error, w', evs) \<Rightarrow> (Inl (wrapError error), w', evs)
      | (Inr documents, w', evs) \<Rightarrow> (Inr (TextContent documents), w', evs))"

definition handleCallTool ::
  "config \<Rightarrow> 'w upstream \<Rightarrow> 'w \<Rightarrow> call_tool_request \<Rightarrow> (tool_result, 'w) run" where
  "handleCallTool cfg up w request =
     (if tool_name request \<noteq> ''search_documents''
      then (Inl (McpError MethodNotFound (''Unknown tool: '' @ tool_name request)), w, [])
      else if \<not> truthy (arguments request) \<or> typeof (arguments request) \<noteq> ''object''
      then (Inl (McpError InvalidParams ''Arguments must be an object''), w, [])
      else
        (let args = arguments request in
         case getProp args ''query'' of
           JStr query \<Rightarrow>
             (let top_k = (case getProp args ''top_k'' of JNum n \<Rightarrow> n | _ \<Rightarrow> 3);
                  max_chars = (case getProp args ''max_chars'' of JNum n \<Rightarrow> n | _ \<Rightarrow> 4000)
              in respond (searchDocuments cfg up w query top_k max_chars))
         | _ \<Rightarrow> (Inl (McpError InvalidParams ''Query must be a string''), w, [])))"

section \<open>Reading the record of a run\<close>

text \<open>The search calls of a run, in order, each with its answer.\<close>

fun searchCalls :: "event list \<Rightarrow> (search_request \<times> search_response) list" where
  "searchCalls [] = []"
| "searchCalls (SearchCall req response # evs) = (req, response) # searchCalls evs"
| "searchCalls (InfoCall req response # evs) = searchCalls evs"

fun infoCalls :: "event list \<Rightarrow> (info_request \<times> info_response) list" where
  "infoCalls [] = []"
| "infoCalls (SearchCall req response # evs) = infoCalls evs"
| "infoCalls (InfoCall req response # evs) = (req, response) # infoCalls evs"

text \<open>The hits a search answer holds: those of its array, none when it has no array.\<close>

fun hitsOf :: "search_response \<Rightarrow> hit list" where
  "hitsOf (SearchResolved (Some (DataArray hits))) = hits"
| "hitsOf response = []"

text \<open>
  A search answer the search cannot go on from: a rejection, a \<open>null\<close> body, or a hit
  with no \<open>document\<close>.
\<close>

fun searchFault :: "search_response \<Rightarrow> bool" where
  "searchFault (SearchRejected e) = True"
| "searchFault (SearchResolved None) = True"
| "searchFault (SearchResolved (Some (DataArray hits))) =
     list_ex (\<lambda>h. hit_document h = None) hits"
| "searchFault (SearchResolved (Some other)) = False"

text \<open>A detail fetch fails when the call is rejected or its body is \<open>null\<close>.\<close>

fun fetchFailed :: "info_response \<Rightarrow> bool" where
  "fetchFailed (InfoRejected e) = True"
| "fetchFailed (InfoResolved None) = True"
| "fetchFailed (InfoResolved (Some v)) = False"

text \<open>A hit and the result built for it: the fields that do not depend on the fetch.\<close>

definition resultOfHit :: "config \<Rightarrow> document_summary \<Rightarrow> hit \<Rightarrow> bool" where
  "resultOfHit cfg d h =
     (case hit_document h of
        None \<Rightarrow> False
      | Some doc \<Rightarrow>
          res_id d = js_or (doc_id doc) [] \<and> res_title d = js_or (doc_title doc) []
          \<and> res_url d = instanceUrl cfg @ ''/doc/''
               @ js_or (js_or_opt (doc_urlId doc) (doc_id doc)) [])"

text \<open>What \<open>getDocument\<close> makes of the answer to its call.\<close>

fun fetchedOf :: "info_response \<Rightarrow> fetched" where
  "fetchedOf (InfoResolved (Some v)) = v"
| "fetchedOf response = FNull"

text \<open>
  What the callback leaves for a hit: a rejection only for a hit with no \<open>document\<close>,
  and otherwise a result built from the hit, its text cut at \<open>maxChars\<close>.
\<close>

definition hitOutcome :: "config \<Rightarrow> int \<Rightarrow> exn + document_summary \<Rightarrow> hit \<Rightarrow> bool" where
  "hitOutcome cfg m r h =
     (case r of
        Inl e \<Rightarrow> hit_document h = None
      | Inr d \<Rightarrow> resultOfHit cfg d h \<and> int (length (res_text d)) \<le> max m 0)"

text \<open>
  One turn of the loop on the keyword \<open>k\<close>, started with no documents: it ends the loop
  (\<open>Stop\<close>) or leaves the documents empty and goes on to the next keyword (\<open>Next\<close>).
\<close>

datatype 'w turn = Stop "exn + document_summary list" 'w "event list" | Next 'w "event list"

definition attempt :: "config \<Rightarrow> 'w upstream \<Rightarrow> int \<Rightarrow> int \<Rightarrow> 'w \<Rightarrow> string \<Rightarrow> 'w turn" where
  "attempt cfg up topK m w k =
     (let req = searchRequest cfg k topK in
      case search_post up w req of
        (response, w1) \<Rightarrow>
          (case response of
             SearchRejected e \<Rightarrow> Stop (Inl (Axios e)) w1 [SearchCall req response]
           | SearchResolved None \<Rightarrow> Stop (Inl (TypeError ''null'' ''data'')) w1 [SearchCall req response]
           | SearchResolved (Some (DataArray hits)) \<Rightarrow>
               (case mapHits cfg up m w1 hits of
                  (rs, w2, evs) \<Rightarrow>
                    (case promiseAll rs of
                       Inl error \<Rightarrow> Stop (Inl error) w2 (SearchCall req response # evs)
                     | Inr results \<Rightarrow>
                         if results = [] then Next w2 (SearchCall req response # evs)
                         else Stop (Inr results) w2 (SearchCall req response # evs)))
           | SearchResolved (Some other) \<Rightarrow> Next w1 [SearchCall req response]))"

text \<open>
  A result, its hit and the detail fetch made for it: the fetch asks for the hit's
  document, a failed fetch leaves the hit's context as the text, a fetched document gives
  its own text.
\<close>

definition fetchedResult :: "config \<Rightarrow> int \<Rightarrow> document_summary \<Rightarrow> hit \<Rightarrow> info_request \<times> info_response \<Rightarrow> bool" where
  "fetchedResult cfg m d h c =
     ((\<exists>doc. hit_document h = Some doc \<and> fst c = infoRequest cfg (doc_id doc))
      \<and> (fetchFailed (snd c) \<longrightarrow> res_text d = substring0 (js_or (hit_context h) []) m)
      \<and> (\<forall>t. snd c = InfoResolved (Some (FDocument t)) \<longrightarrow>
            res_text d = substring0 (js_or t []) m))"

section \<open>An example service\<close>

definition wikiConfig :: config where
  "wikiConfig = \<lparr>apiKey = ''secret'', instanceUrl = ''https://wiki.example.com/''\<rparr>"

definition hitGuide :: hit where
  "hitGuide =
     \<lparr>hit_document = Some \<lparr>doc_id = Some ''d1'', doc_title = Some ''Password guide'',
        doc_urlId = Some ''guide-abc''\<rparr>,
      hit_context = Some ''reset your password''\<rparr>"

definition hitFaq :: hit where
  "hitFaq =
     \<lparr>hit_document = Some \<lparr>doc_id = Some ''d2'', doc_title = None, doc_urlId = None\<rparr>,
      hit_context = Some ''password rules''\<rparr>"

text \<open>
  A service that counts its calls. It finds nothing for \<open>reset\<close>, answers \<open>wiki\<close> with a
  body that holds no array, and finds two hits for any other term; it has the full text of
  the document \<open>d1\<close> only, every other detail fetch is rejected.
\<close>

definition wikiService :: "nat upstream" where
  "wikiService =
     \<lparr>search_post = (\<lambda>w req.
        (if sr_query req = ''reset'' then SearchResolved (Some (DataArray []))
         else if sr_query req = ''wiki'' then SearchResolved (Some DataAbsent)
         else SearchResolved (Some (DataArray [hitGuide, hitFaq])), Suc w)),
      info_post = (\<lambda>w req.
        (if ir_id req = Some ''d1''
         then InfoResolved (Some (FDocument (Some ''Choose a new password.'')))
         else InfoRejected (AxiosError None ''Request failed with status code 404''), Suc w))\<rparr>"

text \<open>A call with a \<open>top_k\<close> above the advertised bound and a \<open>max_chars\<close> that is no number.\<close>

definition exampleRequest :: call_tool_request where
  "exampleRequest =
     \<lparr>tool_name = ''search_documents'',
      arguments = JObj [(''query'', JStr ''password''), (''top_k'', JNum 50),
        (''max_chars'', JStr ''12'')]\<rparr>"

section \<open>Keyword extraction: the code and the specification\<close>

declare spec_tokens.simps [simp del]

lemma spec_tokens_dropWhile:
  "spec_tokens (dropWhile isWhitespace s) = spec_tokens s"
  by (subst (1 2) spec_tokens.simps) simp

lemma spec_tokens_Nil: "spec_tokens [] = []"
  by (subst spec_tokens.simps) simp

lemma spec_tokens_whitespace_Cons:
  "isWhitespace c \<Longrightarrow> spec_tokens (c # cs) = spec_tokens (dropWhile isWhitespace cs)"
  using spec_tokens_dropWhile [of "c # cs"] by simp

lemma spec_tokens_word:
  assumes "cur \<noteq> []" and "list_all (\<lambda>x. \<not> isWhitespace x) cur"
  shows "spec_tokens cur = [cur]"
proof -
  obtain x xs where cur: "cur = x # xs" using assms(1) by (cases cur) auto
  have nx: "\<not> isWhitespace x" and nxs: "\<forall>y\<in>set xs. \<not> isWhitespace y"
    using assms(2) by (auto simp: cur list_all_iff)
  have t: "takeWhile (\<lambda>x. \<not> isWhitespace x) xs = xs" using nxs by simp
  have d: "dropWhile (\<lambda>x. \<not> isWhitespace x) xs = []" using nxs by simp
  show ?thesis
    using nx by (subst spec_tokens.simps) (simp add: cur t d spec_tokens_Nil)
qed

lemma spec_tokens_word_append:
  assumes "cur \<noteq> []" and "list_all (\<lambda>x. \<not> isWhitespace x) cur" and "isWhitespace c"
  shows "spec_tokens (cur @ c # cs) = cur # spec_tokens (c # cs)"
proof -
  obtain x xs where cur: "cur = x # xs" using assms(1) by (cases cur) auto
  have nx: "\<not> isWhitespace x" and nxs: "\<forall>y\<in>set xs. \<not> isWhitespace y"
    using assms(2) by (auto simp: cur list_all_iff)
  have t: "takeWhile (\<lambda>x. \<not> isWhitespace x) (xs @ c # cs) = xs"
    using nxs assms(3) by simp
  have d: "dropWhile (\<lambda>x. \<not> isWhitespace x) (xs @ c # cs) = c # cs"
    using nxs assms(3) by simp
  show ?thesis
    using nx by (subst spec_tokens.simps) (simp add: cur t d)
qed

lemma split_from_tokens:
  "list_all (\<lambda>x. \<not> isWhitespace x) cur \<Longrightarrow>
   filter (\<lambda>t. t \<noteq> []) (split_from cur s) = spec_tokens (cur @ s)"
proof (induction cur s rule: split_from.induct)
  case (1 cur)
  then show ?case
    by (cases "cur = []") (simp_all add: spec_tokens_Nil spec_tokens_word)
next
  case (2 cur c cs)
  show ?case
  proof (cases "isWhitespace c")
    case True
    have rest: "filter (\<lambda>t. t \<noteq> []) (split_from [] (dropWhile isWhitespace cs))
                = spec_tokens (c # cs)"
      using 2(1) [OF True] True by (simp add: spec_tokens_whitespace_Cons)
    show ?thesis
    proof (cases "cur = []")
      case True
      then show ?thesis using \<open>isWhitespace c\<close> rest by simp
    next
      case False
      then show ?thesis
        using \<open>isWhitespace c\<close> rest 2(3) by (simp add: spec_tokens_word_append)
    qed
  next
    case False
    then show ?thesis using 2(2) 2(3) by simp
  qed
qed

lemma kept_iff_not_dropped:
  "(length word > 2 \<and> word \<notin> set stopWords \<and> \<not> matchesPunctuation word)
   = (word \<noteq> [] \<and> \<not> spec_dropped word)"
proof -
  have "stopWords = spec_stopwords" by (simp add: stopWords_def spec_stopwords_def)
  then show ?thesis
    by (cases word) (auto simp: spec_dropped_def matchesPunctuation_def)
qed

lemma extractKeywords_refines: "extractKeywords query = spec_extractKeywords query"
proof -
  have "extractKeywords query =
      filter (\<lambda>t. \<not> spec_dropped t)
        (filter (\<lambda>t. t \<noteq> []) (split_from [] (toLowerCase query)))"
    by (simp add: extractKeywords_def split_whitespace_def kept_iff_not_dropped)
  also have "\<dots> = filter (\<lambda>t. \<not> spec_dropped t) (spec_tokens (toLowerCase query))"
    using split_from_tokens [of "[]" "toLowerCase query"] by simp
  finally show ?thesis by (simp add: spec_extractKeywords_def)
qed

section \<open>The detail fetch and the callback\<close>

lemma getDocument_eq:
  "getDocument cfg up w i =
     (case info_post up w (infoRequest cfg i) of
        (response, w') \<Rightarrow> (Inr (fetchedOf response), w', [InfoCall (infoRequest cfg i) response]))"
  by (simp add: getDocument_def getDocument_try_def Let_def
      split: prod.splits info_response.splits option.splits)

lemma processHit_Some:
  "hit_document h = Some doc \<Longrightarrow>
   processHit cfg up m w h =
     (case info_post up w (infoRequest cfg (doc_id doc)) of
        (response, w') \<Rightarrow>
          (Inr (summarise cfg h doc (fetchedOf response) m), w',
           [InfoCall (infoRequest cfg (doc_id doc)) response]))"
  by (simp add: processHit_def getDocument_eq split: prod.splits)

lemma processHit_None:
  "hit_document h = None \<Longrightarrow>
   processHit cfg up m w h = (Inl (TypeError ''undefined'' ''id''), w, [])"
  by (simp add: processHit_def)

lemma length_substring0: "int (length (substring0 s m)) \<le> max m 0"
  by (simp add: substring0_def)

lemma summarise_text_length: "int (length (res_text (summarise cfg h doc f m))) \<le> max m 0"
  by (simp add: summarise_def length_substring0 split: fetched.splits)

lemma summarise_resultOfHit:
  "hit_document h = Some doc \<Longrightarrow> resultOfHit cfg (summarise cfg h doc f m) h"
  by (simp add: resultOfHit_def summarise_def)

lemma processHit_outcome:
  "processHit cfg up m w h = (r, w', evs) \<Longrightarrow> hitOutcome cfg m r h \<and> searchCalls evs = []"
  by (cases "hit_document h")
     (auto simp: processHit_None processHit_Some hitOutcome_def summarise_text_length
        summarise_resultOfHit split: prod.splits)

lemma searchCalls_append: "searchCalls (xs @ ys) = searchCalls xs @ searchCalls ys"
  by (induction xs rule: searchCalls.induct) simp_all

lemma mapHits_outcome:
  "mapHits cfg up m w hs = (rs, w', evs) \<Longrightarrow>
   list_all2 (hitOutcome cfg m) rs hs \<and> searchCalls evs = []"
proof (induction hs arbitrary: w rs w' evs)
  case Nil
  then show ?case by simp
next
  case (Cons h hs)
  obtain r w1 e1 where p: "processHit cfg up m w h = (r, w1, e1)"
    by (cases "processHit cfg up m w h") auto
  obtain rs' w2 e2 where q: "mapHits cfg up m w1 hs = (rs', w2, e2)"
    by (cases "mapHits cfg up m w1 hs") auto
  from Cons.prems p q have "rs = r # rs'" "evs = e1 @ e2" by simp_all
  then show ?case
    using processHit_outcome [OF p] Cons.IH [OF q] by (simp add: searchCalls_append)
qed

lemma promiseAll_Inr: "promiseAll rs = Inr xs \<Longrightarrow> rs = map Inr xs"
  by (induction rs arbitrary: xs rule: promiseAll.induct) (auto split: sum.splits)

lemma promiseAll_Inl: "promiseAll rs = Inl e \<Longrightarrow> Inl e \<in> set rs"
  by (induction rs rule: promiseAll.induct) (auto split: sum.splits)

lemma outcomes_Inr:
  "list_all2 (hitOutcome cfg m) (map Inr xs) hs \<Longrightarrow>
   list_all2 (resultOfHit cfg) xs hs \<and> (\<forall>d\<in>set xs. int (length (res_text d)) \<le> max m 0)"
  by (induction xs arbitrary: hs) (auto simp: hitOutcome_def list_all2_Cons1)

lemma outcomes_Inl:
  "list_all2 (hitOutcome cfg m) rs hs \<Longrightarrow> Inl e \<in> set rs \<Longrightarrow>
   list_ex (\<lambda>h. hit_document h = None) hs"
  by (induction rs hs rule: list_all2_induct) (auto simp: hitOutcome_def)

lemma searchLoop_done:
  "documents \<noteq> [] \<Longrightarrow> searchLoop cfg up topK m w ks documents = (Inr documents, w, [])"
  by (cases ks) simp_all

lemma searchLoop_Cons:
  "searchLoop cfg up topK m w (k # ks) [] =
     (case attempt cfg up topK m w k of
        Stop out w' evs \<Rightarrow> (out, w', evs)
      | Next w1 evs \<Rightarrow>
          (case searchLoop cfg up topK m w1 ks [] of
             (out, w', evs') \<Rightarrow> (out, w', evs @ evs')))"
  by (simp add: attempt_def Let_def searchLoop_done
      split: prod.splits search_response.splits option.splits search_data.splits sum.splits)


lemma searchLoop_cases [consumes 1, case_names Nil Stop Next]:
  assumes "searchLoop cfg up topK m w ks [] = (out, w', evs)"
    and "\<And>w. P w [] (Inr []) w []"
    and "\<And>w k ks out w' evs. attempt cfg up topK m w k = Stop out w' evs \<Longrightarrow> P w (k # ks) out w' evs"
    and "\<And>w k ks w1 e1 out w' evs.
           attempt cfg up topK m w k = Next w1 e1 \<Longrightarrow>
           searchLoop cfg up topK m w1 ks [] = (out, w', evs) \<Longrightarrow>
           P w1 ks out w' evs \<Longrightarrow> P w (k # ks) out w' (e1 @ evs)"
  shows "P w ks out w' evs"
  using assms(1)
proof (induction ks arbitrary: w out w' evs)
  case Nil
  then show ?case using assms(2) by simp
next
  case (Cons k ks)
  show ?case
  proof (cases "attempt cfg up topK m w k")
    case (Stop o1 w1 e1)
    then show ?thesis using Cons.prems assms(3)
      by (simp add: searchLoop_Cons del: searchLoop.simps)
  next
    case (Next w1 e1)
    obtain o2 w2 e2 where r: "searchLoop cfg up topK m w1 ks [] = (o2, w2, e2)"
      by (cases "searchLoop cfg up topK m w1 ks []") auto
    from Cons.prems Next r have "out = o2" "w' = w2" "evs = e1 @ e2"
      by (simp_all add: searchLoop_Cons del: searchLoop.simps)
    then show ?thesis using assms(4) [OF Next r Cons.IH [OF r]] by simp
  qed
qed

lemma attempt_Stop_Inr:
  assumes "attempt cfg up topK m w k = Stop (Inr docs) w' evs"
  shows "\<exists>response. searchCalls evs = [(searchRequest cfg k topK, response)]
           \<and> fst (search_post up w (searchRequest cfg k topK)) = response
           \<and> docs \<noteq> [] \<and> list_all2 (resultOfHit cfg) docs (hitsOf response)
           \<and> (\<forall>d\<in>set docs. int (length (res_text d)) \<le> max m 0)"
  using assms
  by (auto simp: attempt_def Let_def
      split: prod.splits search_response.splits option.splits search_data.splits sum.splits
        if_splits
      dest!: mapHits_outcome promiseAll_Inr outcomes_Inr)

lemma attempt_Stop_Inl:
  assumes "attempt cfg up topK m w k = Stop (Inl e) w' evs"
  shows "\<exists>response. searchCalls evs = [(searchRequest cfg k topK, response)]
           \<and> fst (search_post up w (searchRequest cfg k topK)) = response
           \<and> searchFault response"
  using assms
  by (auto simp: attempt_def Let_def
      split: prod.splits search_response.splits option.splits search_data.splits sum.splits
        if_splits
      dest!: mapHits_outcome promiseAll_Inl dest: outcomes_Inl)

lemma mapHits_no_results:
  "mapHits cfg up m w hs = (rs, w', evs) \<Longrightarrow> promiseAll rs = Inr [] \<Longrightarrow>
   hs = [] \<and> evs = [] \<and> w' = w"
  by (cases hs) (auto split: prod.splits dest!: promiseAll_Inr)

lemma attempt_Next:
  assumes "attempt cfg up topK m w k = Next w' evs"
  shows "\<exists>response. evs = [SearchCall (searchRequest cfg k topK) response]
           \<and> search_post up w (searchRequest cfg k topK) = (response, w')
           \<and> hitsOf response = [] \<and> \<not> searchFault response"
  using assms
  by (auto simp: attempt_def Let_def
      split: prod.splits search_response.splits option.splits search_data.splits sum.splits
        if_splits
      dest: mapHits_no_results)


lemma attempt_Stop_calls:
  assumes "attempt cfg up topK m w k = Stop out w' evs"
  shows "\<exists>response. searchCalls evs = [(searchRequest cfg k topK, response)]"
  using assms attempt_Stop_Inr [of cfg up topK m w k _ w' evs]
    attempt_Stop_Inl [of cfg up topK m w k _ w' evs]
  by (cases out) auto

lemma searchLoop_requests:
  assumes "searchLoop cfg up topK m w ks [] = (out, w', evs)"
  shows "map fst (searchCalls evs)
         = map (\<lambda>k. searchRequest cfg k topK) (take (length (searchCalls evs)) ks)"
  using assms
proof (induction rule: searchLoop_cases)
  case (Nil w)
  then show ?case by simp
next
  case (Stop w k ks out w' evs)
  then show ?case using attempt_Stop_calls [OF Stop] by auto
next
  case (Next w k ks w1 e1 out w' evs)
  then show ?case using attempt_Next [OF Next(1)] by auto
qed

lemma searchLoop_earlier_calls:
  assumes "searchLoop cfg up topK m w ks [] = (out, w', evs)"
  shows "\<forall>i. Suc i < length (searchCalls evs) \<longrightarrow>
           hitsOf (snd (searchCalls evs ! i)) = [] \<and> \<not> searchFault (snd (searchCalls evs ! i))"
  using assms
proof (induction rule: searchLoop_cases)
  case (Nil w)
  then show ?case by simp
next
  case (Stop w k ks out w' evs)
  then show ?case using attempt_Stop_calls [OF Stop] by auto
next
  case (Next w k ks w1 e1 out w' evs)
  then show ?case using attempt_Next [OF Next(1)] by (auto simp: nth_Cons split: nat.splits)
qed

lemma searchLoop_success:
  assumes "searchLoop cfg up topK m w ks [] = (Inr docs, w', evs)"
  shows "(\<forall>d\<in>set docs. int (length (res_text d)) \<le> max m 0)
         \<and> (if docs = []
            then length (searchCalls evs) = length ks
                 \<and> (\<forall>c\<in>set (searchCalls evs). hitsOf (snd c) = [])
            else searchCalls evs \<noteq> []
                 \<and> list_all2 (resultOfHit cfg) docs (hitsOf (snd (last (searchCalls evs)))))"
proof -
  have "\<forall>docs. out = Inr docs \<longrightarrow> (\<forall>d\<in>set docs. int (length (res_text d)) \<le> max m 0)
         \<and> (if docs = []
            then length (searchCalls evs) = length ks
                 \<and> (\<forall>c\<in>set (searchCalls evs). hitsOf (snd c) = [])
            else searchCalls evs \<noteq> []
                 \<and> list_all2 (resultOfHit cfg) docs (hitsOf (snd (last (searchCalls evs)))))"
    if "searchLoop cfg up topK m w ks [] = (out, w', evs)" for out
    using that
  proof (induction rule: searchLoop_cases)
    case (Nil w)
    then show ?case by simp
  next
    case (Stop w k ks out w' evs)
    then show ?case using attempt_Stop_Inr [of cfg up topK m w k _ w' evs] by auto
  next
    case (Next w k ks w1 e1 out w' evs)
    then show ?case using attempt_Next [OF Next(1)] by fastforce
  qed
  then show ?thesis using assms by blast
qed

lemma searchLoop_failure:
  assumes "searchLoop cfg up topK m w ks [] = (Inl e, w', evs)"
  shows "searchCalls evs \<noteq> [] \<and> searchFault (snd (last (searchCalls evs)))"
proof -
  have "\<forall>e. out = Inl e \<longrightarrow>
          searchCalls evs \<noteq> [] \<and> searchFault (snd (last (searchCalls evs)))"
    if "searchLoop cfg up topK m w ks [] = (out, w', evs)" for out
    using that
  proof (induction rule: searchLoop_cases)
    case (Nil w)
    then show ?case by simp
  next
    case (Stop w k ks out w' evs)
    then show ?case using attempt_Stop_Inl [of cfg up topK m w k _ w' evs] by auto
  next
    case (Next w k ks w1 e1 out w' evs)
    then show ?case using attempt_Next [OF Next(1)] by auto
  qed
  then show ?thesis using assms by blast
qed

lemma searchDocuments_loop:
  "searchDocuments cfg up w query topK m = (out, w', evs) \<Longrightarrow>
   \<exists>out'. searchLoop cfg up topK m w (extractKeywords query) [] = (out', w', evs)
     \<and> (case out' of Inl e \<Rightarrow> out = Inl (translateError cfg e) | Inr docs \<Rightarrow> out = Inr docs)"
  by (auto simp: searchDocuments_def Let_def split: prod.splits sum.splits)

section \<open>Further facts about the search and the handler\<close>

lemma run_collapse: "r = (fst r, fst (snd r), snd (snd r))"
  by simp

lemma searchDocuments_Inr:
  "searchDocuments cfg up w query topK m = (Inr documents, w', evs) \<Longrightarrow>
   searchLoop cfg up topK m w (extractKeywords query) [] = (Inr documents, w', evs)"
  by (auto simp: searchDocuments_def Let_def split: prod.splits sum.splits)

lemma searchDocuments_Inl:
  "searchDocuments cfg up w query topK m = (Inl e, w', evs) \<Longrightarrow>
   \<exists>e'. searchLoop cfg up topK m w (extractKeywords query) [] = (Inl e', w', evs)"
  by (auto simp: searchDocuments_def Let_def split: prod.splits sum.splits)

lemma searchDocuments_events:
  "snd (snd (searchDocuments cfg up w query topK m))
   = snd (snd (searchLoop cfg up topK m w (extractKeywords query) []))"
  by (simp add: searchDocuments_def Let_def split: prod.splits sum.splits)

lemma attempt_turn:
  "(case attempt cfg up topK m w k of
      Stop out w' evs \<Rightarrow>
        searchCalls evs = [(searchRequest cfg k topK, fst (search_post up w (searchRequest cfg k topK)))]
        \<and> (hitsOf (fst (search_post up w (searchRequest cfg k topK))) \<noteq> []
             \<or> searchFault (fst (search_post up w (searchRequest cfg k topK))))
    | Next w' evs \<Rightarrow>
        evs = [SearchCall (searchRequest cfg k topK) (fst (search_post up w (searchRequest cfg k topK)))]
        \<and> w' = snd (search_post up w (searchRequest cfg k topK))
        \<and> hitsOf (fst (search_post up w (searchRequest cfg k topK))) = []
        \<and> \<not> searchFault (fst (search_post up w (searchRequest cfg k topK))))"
proof (cases "attempt cfg up topK m w k")
  case (Stop out w' evs)
  show ?thesis
  proof (cases out)
    case (Inl e)
    then show ?thesis using Stop attempt_Stop_Inl [of cfg up topK m w k e w' evs] by auto
  next
    case (Inr docs)
    then show ?thesis using Stop attempt_Stop_Inr [of cfg up topK m w k docs w' evs] by auto
  qed
next
  case (Next w' evs)
  then show ?thesis using attempt_Next [OF Next] by auto
qed

lemma searchLoop_queries_Cons:
  "map (\<lambda>c. sr_query (fst c)) (searchCalls (snd (snd (searchLoop cfg up topK m w (k # ks) []))))
   = (if hitsOf (fst (search_post up w (searchRequest cfg k topK))) = []
         \<and> \<not> searchFault (fst (search_post up w (searchRequest cfg k topK)))
      then k # map (\<lambda>c. sr_query (fst c))
             (searchCalls (snd (snd (searchLoop cfg up topK m
                (snd (search_post up w (searchRequest cfg k topK))) ks []))))
      else [k])"
  using attempt_turn [where cfg = cfg and up = up and topK = topK and m = m and w = w and k = k]
  by (cases "attempt cfg up topK m w k")
     (auto simp: searchLoop_Cons searchRequest_def simp del: searchLoop.simps split: prod.splits)

lemma typeof_number: "typeof v = ''number'' \<longleftrightarrow> (\<exists>n. v = JNum n)"
  by (cases v) simp_all

lemma typeof_string: "typeof v = ''string'' \<longleftrightarrow> (\<exists>s. v = JStr s)"
  by (cases v) simp_all

lemma respond_events: "snd (snd (respond r)) = snd (snd r)"
  by (simp add: respond_def split: prod.splits sum.splits)

lemma searchDocuments_limits:
  "\<forall>c\<in>set (searchCalls (snd (snd (searchDocuments cfg up w query topK m)))).
     sr_limit (fst c) = topK"
proof -
  obtain out w' evs where run: "searchDocuments cfg up w query topK m = (out, w', evs)"
    by (cases "searchDocuments cfg up w query topK m") auto
  obtain out' where loop:
    "searchLoop cfg up topK m w (extractKeywords query) [] = (out', w', evs)"
    using searchDocuments_loop [OF run] by blast
  have "fst ` set (searchCalls evs) \<subseteq> (\<lambda>k. searchRequest cfg k topK) ` UNIV"
    using searchLoop_requests [OF loop]
    by (metis (no_types, lifting) image_mono image_set set_map subset_UNIV)
  then show ?thesis by (auto simp: run searchRequest_def)
qed

lemma infoCalls_append: "infoCalls (xs @ ys) = infoCalls xs @ infoCalls ys"
  by (induction xs rule: infoCalls.induct) simp_all

lemma processHit_fetched:
  assumes "processHit cfg up m w h = (Inr d, w', evs)"
  shows "\<exists>c. infoCalls evs = [c] \<and> fetchedResult cfg m d h c"
proof (cases "hit_document h")
  case None
  then show ?thesis using assms by (simp add: processHit_None)
next
  case (Some doc)
  obtain response w1 where p: "info_post up w (infoRequest cfg (doc_id doc)) = (response, w1)"
    by (cases "info_post up w (infoRequest cfg (doc_id doc))") auto
  from assms Some p have d: "d = summarise cfg h doc (fetchedOf response) m"
    and e: "evs = [InfoCall (infoRequest cfg (doc_id doc)) response]"
    by (simp_all add: processHit_Some)
  have "fetchedResult cfg m d h (infoRequest cfg (doc_id doc), response)"
    unfolding fetchedResult_def d using Some
    by (cases response rule: fetchFailed.cases) (auto simp: summarise_def)
  then show ?thesis using e by simp
qed

lemma mapHits_fetched:
  "mapHits cfg up m w hs = (map Inr docs, w', evs) \<Longrightarrow>
   length docs = length hs \<and> length (infoCalls evs) = length hs
   \<and> (\<forall>i<length hs. fetchedResult cfg m (docs ! i) (hs ! i) (infoCalls evs ! i))"
proof (induction hs arbitrary: w docs w' evs)
  case Nil
  then show ?case by simp
next
  case (Cons h hs)
  obtain r w1 e1 where p: "processHit cfg up m w h = (r, w1, e1)"
    by (cases "processHit cfg up m w h") auto
  obtain rs' w2 e2 where q: "mapHits cfg up m w1 hs = (rs', w2, e2)"
    by (cases "mapHits cfg up m w1 hs") auto
  from Cons.prems p q have eq: "map Inr docs = r # rs'" and evs: "evs = e1 @ e2"
    by simp_all
  from eq obtain d docs' where docs: "docs = d # docs'" and r: "r = Inr d"
    and rs': "rs' = map Inr docs'"
    by (cases docs) auto
  from processHit_fetched [OF p [unfolded r]] obtain c
    where c: "infoCalls e1 = [c]" "fetchedResult cfg m d h c" by blast
  from Cons.IH [OF q [unfolded rs']]
  have ih: "length docs' = length hs" "length (infoCalls e2) = length hs"
    "\<forall>i<length hs. fetchedResult cfg m (docs' ! i) (hs ! i) (infoCalls e2 ! i)"
    by simp_all
  show ?case
    using c ih by (auto simp: docs evs infoCalls_append nth_Cons split: nat.splits)
qed

lemma attempt_Stop_Inr_hits:
  assumes "attempt cfg up topK m w k = Stop (Inr docs) w' evs"
  shows "\<exists>hits w1 evs'.
           search_post up w (searchRequest cfg k topK)
             = (SearchResolved (Some (DataArray hits)), w1)
           \<and> mapHits cfg up m w1 hits = (map Inr docs, w', evs')
           \<and> evs = SearchCall (searchRequest cfg k topK) (SearchResolved (Some (DataArray hits)))
                   # evs'"
  using assms
  by (auto simp: attempt_def Let_def
      split: prod.splits search_response.splits option.splits search_data.splits sum.splits
        if_splits
      dest!: promiseAll_Inr)

lemma attempt_Stop_fetched:
  assumes "attempt cfg up topK m w k = Stop (Inr docs) w' evs"
  shows "\<exists>response. searchCalls evs = [(searchRequest cfg k topK, response)]
           \<and> length docs = length (hitsOf response)
           \<and> length (infoCalls evs) = length docs
           \<and> (\<forall>i<length docs.
                 fetchedResult cfg m (docs ! i) (hitsOf response ! i) (infoCalls evs ! i))"
proof -
  from attempt_Stop_Inr_hits [OF assms] obtain hits w1 evs'
    where m: "mapHits cfg up m w1 hits = (map Inr docs, w', evs')"
      and evs: "evs = SearchCall (searchRequest cfg k topK)
                  (SearchResolved (Some (DataArray hits))) # evs'"
    by blast
  from mapHits_outcome [OF m] have "searchCalls evs' = []" by simp
  with mapHits_fetched [OF m] show ?thesis by (simp add: evs)
qed

lemma searchLoop_fetched:
  assumes "searchLoop cfg up topK m w ks [] = (Inr docs, w', evs)" and "docs \<noteq> []"
  shows "length docs = length (hitsOf (snd (last (searchCalls evs))))
         \<and> length (infoCalls evs) = length docs
         \<and> (\<forall>i<length docs.
               fetchedResult cfg m (docs ! i) (hitsOf (snd (last (searchCalls evs))) ! i)
                 (infoCalls evs ! i))"
proof -
  have "\<forall>docs. out = Inr docs \<and> docs \<noteq> [] \<longrightarrow>
         searchCalls evs \<noteq> [] \<and>
         length docs = length (hitsOf (snd (last (searchCalls evs))))
         \<and> length (infoCalls evs) = length docs
         \<and> (\<forall>i<length docs.
               fetchedResult cfg m (docs ! i) (hitsOf (snd (last (searchCalls evs))) ! i)
                 (infoCalls evs ! i))"
    if "searchLoop cfg up topK m w ks [] = (out, w', evs)" for out
    using that
  proof (induction rule: searchLoop_cases)
    case (Nil w)
    then show ?case by simp
  next
    case (Stop w k ks out w' evs)
    then show ?case using attempt_Stop_fetched [of cfg up topK m w k _ w' evs] by auto
  next
    case (Next w k ks w1 e1 out w' evs)
    then show ?case using attempt_Next [OF Next(1)] by auto
  qed
  then show ?thesis using assms by blast
qed

lemma getDocument_returns:
  "\<exists>v w' evs. getDocument cfg up w documentId = (Inr v, w', evs)"
  by (simp add: getDocument_eq split: prod.splits)

lemma getDocument_failed:
  "fetchFailed (fst (info_post up w (infoRequest cfg documentId))) \<Longrightarrow>
   fst (getDocument cfg up w documentId) = Inr FNull"
  by (cases "fst (info_post up w (infoRequest cfg documentId))" rule: fetchFailed.cases)
     (auto simp: getDocument_eq split: prod.splits)

lemma no_keywords:
  "list_all spec_dropped (spec_tokens (toLowerCase query)) \<Longrightarrow> extractKeywords query = []"
  by (simp add: extractKeywords_refines spec_extractKeywords_def list_all_iff filter_empty_conv)

section \<open>The claims\<close>

text \<open>
  C1. For every query, \<open>topK\<close> and \<open>maxChars\<close>, the search calls of \<open>searchDocuments\<close> are
  made for the extracted keywords in order, one call per keyword, each with the limit
  \<open>topK\<close>; every call but the last one returned no hit, so a call is made only while no
  result has been gathered. When the search returns documents, they are the results of
  the hits of the last call alone, one per hit and in their order: with no hit for the
  first keyword and \<open>N\<close> hits for the second there are exactly \<open>N\<close> documents. When it
  returns none, every keyword was tried and no call returned a hit.
\<close>

theorem searchDocuments_first_keyword_with_hits:
  assumes "searchDocuments cfg up w query topK maxChars = (out, w', evs)"
  shows "map fst (searchCalls evs)
           = map (\<lambda>k. searchRequest cfg k topK)
               (take (length (searchCalls evs)) (extractKeywords query))
         \<and> (\<forall>i. Suc i < length (searchCalls evs) \<longrightarrow> hitsOf (snd (searchCalls evs ! i)) = [])
         \<and> (\<forall>documents. out = Inr documents \<longrightarrow>
              (if documents = []
               then length (searchCalls evs) = length (extractKeywords query)
                    \<and> (\<forall>c\<in>set (searchCalls evs). hitsOf (snd c) = [])
               else searchCalls evs \<noteq> []
                    \<and> length documents = length (hitsOf (snd (last (searchCalls evs))))
                    \<and> list_all2 (resultOfHit cfg) documents
                         (hitsOf (snd (last (searchCalls evs))))))"
proof -
  obtain out' where loop:
    "searchLoop cfg up topK maxChars w (extractKeywords query) [] = (out', w', evs)"
    and out: "case out' of Inl e \<Rightarrow> out = Inl (translateError cfg e)
              | Inr docs \<Rightarrow> out = Inr docs"
    using searchDocuments_loop [OF assms] by blast
  have "\<forall>documents. out = Inr documents \<longrightarrow>
              (if documents = []
               then length (searchCalls evs) = length (extractKeywords query)
                    \<and> (\<forall>c\<in>set (searchCalls evs). hitsOf (snd c) = [])
               else searchCalls evs \<noteq> []
                    \<and> length documents = length (hitsOf (snd (last (searchCalls evs))))
                    \<and> list_all2 (resultOfHit cfg) documents
                         (hitsOf (snd (last (searchCalls evs)))))"
  proof (intro allI impI)
    fix documents
    assume "out = Inr documents"
    with out have "out' = Inr documents" by (cases out') auto
    with loop have "searchLoop cfg up topK maxChars w (extractKeywords query) []
                    = (Inr documents, w', evs)" by simp
    from searchLoop_success [OF this]
    show "if documents = []
               then length (searchCalls evs) = length (extractKeywords query)
                    \<and> (\<forall>c\<in>set (searchCalls evs). hitsOf (snd c) = [])
               else searchCalls evs \<noteq> []
                    \<and> length documents = length (hitsOf (snd (last (searchCalls evs))))
                    \<and> list_all2 (resultOfHit cfg) documents
                         (hitsOf (snd (last (searchCalls evs))))"
      by (auto dest: list_all2_lengthD)
  qed
  then show ?thesis
    using searchLoop_requests [OF loop] searchLoop_earlier_calls [OF loop] by blast
qed

theorem searchDocuments_first_keyword_with_hits_witness:
  "map (\<lambda>c. sr_query (fst c))
     (searchCalls (snd (snd (searchDocuments wikiConfig wikiService 0
        ''How do I reset my password?'' 3 4000))))
     = [''reset'', ''password?'']
   \<and> map (\<lambda>c. length (hitsOf (snd c)))
       (searchCalls (snd (snd (searchDocuments wikiConfig wikiService 0
          ''How do I reset my password?'' 3 4000))))
       = [0, 2]
   \<and> map res_id (case fst (searchDocuments wikiConfig wikiService 0
          ''How do I reset my password?'' 3 4000) of Inl e \<Rightarrow> [] | Inr documents \<Rightarrow> documents)
       = [''d1'', ''d2'']"
proof -
  have ev: ?thesis by code_simp
  show ?thesis
    using ev searchDocuments_first_keyword_with_hits
      [OF run_collapse [of "searchDocuments wikiConfig wikiService 0
        ''How do I reset my password?'' 3 4000"]]
    by simp
qed

text \<open>
  C2. The claim that every returned text has at most \<open>maxChars\<close> characters for every
  value of \<open>maxChars\<close> fails for a negative one: \<open>substring\<close> takes a negative end as
  \<open>0\<close>, so with \<open>maxChars = -1\<close> the texts are empty, and their length \<open>0\<close> is above
  \<open>-1\<close>.
\<close>

theorem searchDocuments_text_exceeds_negative_maxChars:
  "fst (searchDocuments wikiConfig wikiService 0 ''password'' 3 (- 1))
     = Inr [\<lparr>res_id = ''d1'', res_title = ''Password guide'', res_text = [],
              res_url = ''https://wiki.example.com//doc/guide-abc''\<rparr>,
            \<lparr>res_id = ''d2'', res_title = [], res_text = [],
              res_url = ''https://wiki.example.com//doc/d2''\<rparr>]
   \<and> \<not> int (length (res_text \<lparr>res_id = ''d1'', res_title = ''Password guide'', res_text = [],
              res_url = ''https://wiki.example.com//doc/guide-abc''\<rparr>)) \<le> - 1"
  by code_simp

text \<open>
  C2, as the code has it. For every integral \<open>maxChars\<close>, inside the advertised bounds or
  not, every document that \<open>searchDocuments\<close> returns has a text of at most
  \<open>max maxChars 0\<close> characters: at most \<open>maxChars\<close> when \<open>maxChars\<close> is not negative, and
  empty when it is.
\<close>

theorem searchDocuments_text_length:
  assumes "searchDocuments cfg up w query topK maxChars = (Inr documents, w', evs)"
  shows "\<forall>d\<in>set documents. int (length (res_text d)) \<le> max maxChars 0"
  using searchLoop_success [OF searchDocuments_Inr [OF assms]] by blast

theorem searchDocuments_text_length_witness:
  "map (\<lambda>d. length (res_text d))
     (case fst (searchDocuments wikiConfig wikiService 0 ''password'' 3 6) of
        Inl e \<Rightarrow> [] | Inr documents \<Rightarrow> documents) = [6, 6]
   \<and> map (\<lambda>d. length (res_text d))
     (case fst (searchDocuments wikiConfig wikiService 0 ''password'' 3 20000) of
        Inl e \<Rightarrow> [] | Inr documents \<Rightarrow> documents) = [22, 14]"
proof -
  have ev: ?thesis by code_simp
  have run: "searchDocuments wikiConfig wikiService 0 ''password'' 3 6
             = (Inr [\<lparr>res_id = ''d1'', res_title = ''Password guide'', res_text = ''Choose'',
                       res_url = ''https://wiki.example.com//doc/guide-abc''\<rparr>,
                     \<lparr>res_id = ''d2'', res_title = [], res_text = ''passwo'',
                       res_url = ''https://wiki.example.com//doc/d2''\<rparr>],
                fst (snd (searchDocuments wikiConfig wikiService 0 ''password'' 3 6)),
                snd (snd (searchDocuments wikiConfig wikiService 0 ''password'' 3 6)))"
  proof -
    have "fst (searchDocuments wikiConfig wikiService 0 ''password'' 3 6)
          = Inr [\<lparr>res_id = ''d1'', res_title = ''Password guide'', res_text = ''Choose'',
                       res_url = ''https://wiki.example.com//doc/guide-abc''\<rparr>,
                     \<lparr>res_id = ''d2'', res_title = [], res_text = ''passwo'',
                       res_url = ''https://wiki.example.com//doc/d2''\<rparr>]"
      by code_simp
    then show ?thesis by (metis prod.collapse)
  qed
  show ?thesis using ev searchDocuments_text_length [OF run] by simp
qed

text \<open>
  C3. The URL of a result is built on \<open>instanceUrl\<close> as configured, while both upstream
  calls are built on \<open>instanceUrl\<close> with its trailing slash removed. With
  \<open>https://wiki.example.com/\<close> configured, the calls go to
  \<open>https://wiki.example.com/api/...\<close> and the results point to
  \<open>https://wiki.example.com//doc/...\<close>, not to the URL on the stripped base that the
  claim states.
\<close>

theorem result_url_keeps_trailing_slash:
  "sr_url (searchRequest wikiConfig ''password'' 3) = ''https://wiki.example.com/api/documents.search''
   \<and> ir_url (infoRequest wikiConfig (Some ''d1'')) = ''https://wiki.example.com/api/documents.info''
   \<and> fst (searchDocuments wikiConfig wikiService 0 ''password'' 3 4000)
       = Inr [\<lparr>res_id = ''d1'', res_title = ''Password guide'',
                res_text = ''Choose a new password.'',
                res_url = ''https://wiki.example.com//doc/guide-abc''\<rparr>,
              \<lparr>res_id = ''d2'', res_title = [], res_text = ''password rules'',
                res_url = ''https://wiki.example.com//doc/d2''\<rparr>]"
  by code_simp

text \<open>
  C4. For every query, \<open>extractKeywords\<close> returns the tokens of the lowercased query (its
  maximal runs of characters other than whitespace), without those of at most two
  characters, those on the stopword list and those with no alphanumeric character, in
  their order and with their repetitions.
\<close>

theorem extractKeywords_as_specified:
  "extractKeywords query = filter (\<lambda>t. \<not> spec_dropped t) (spec_tokens (toLowerCase query))"
  using extractKeywords_refines [of query] by (simp add: spec_extractKeywords_def)

theorem extractKeywords_as_specified_witness:
  "extractKeywords '' The  Quick brown fox -- and the LAZY dog  ''
     = [''quick'', ''brown'', ''fox'', ''lazy'', ''dog'']
   \<and> filter (\<lambda>t. \<not> spec_dropped t)
       (spec_tokens (toLowerCase '' The  Quick brown fox -- and the LAZY dog  ''))
     = [''quick'', ''brown'', ''fox'', ''lazy'', ''dog'']"
proof -
  have "extractKeywords '' The  Quick brown fox -- and the LAZY dog  ''
     = [''quick'', ''brown'', ''fox'', ''lazy'', ''dog'']"
    by code_simp
  then show ?thesis
    using extractKeywords_as_specified [of "'' The  Quick brown fox -- and the LAZY dog  ''"]
    by simp
qed

text \<open>
  C5. For the query \<open>How do I reset my password?\<close> the keywords are not \<open>reset\<close> and
  \<open>password\<close>: the question mark stays on the last token.
\<close>

theorem extractKeywords_keeps_question_mark:
  "extractKeywords ''How do I reset my password?'' \<noteq> [''reset'', ''password'']"
  by code_simp

text \<open>
  C5, as the code has it. The keywords of \<open>How do I reset my password?\<close> are \<open>reset\<close>
  and \<open>password?\<close>. The search calls upstream with \<open>reset\<close> first; it calls with
  \<open>password?\<close> next exactly when the first call came back with no hit (and with nothing
  that stops the search), and makes no further search call.
\<close>

theorem reset_password_keywords:
  "extractKeywords ''How do I reset my password?'' = [''reset'', ''password?'']
   \<and> map (\<lambda>c. sr_query (fst c))
       (searchCalls (snd (snd (searchDocuments cfg up w ''How do I reset my password?''
          topK maxChars))))
     = (if hitsOf (fst (search_post up w (searchRequest cfg ''reset'' topK))) = []
           \<and> \<not> searchFault (fst (search_post up w (searchRequest cfg ''reset'' topK)))
        then [''reset'', ''password?''] else [''reset''])"
proof -
  have kw: "extractKeywords ''How do I reset my password?'' = [''reset'', ''password?'']"
    by code_simp
  show ?thesis
    unfolding searchDocuments_events kw
    by (simp add: searchLoop_queries_Cons del: searchLoop.simps(2))
qed

theorem reset_password_keywords_witness:
  "map (\<lambda>c. sr_query (fst c))
       (searchCalls (snd (snd (searchDocuments wikiConfig wikiService 0
          ''How do I reset my password?'' 3 4000))))
     = [''reset'', ''password?'']
   \<and> hitsOf (fst (search_post wikiService 0 (searchRequest wikiConfig ''reset'' 3))) = []"
proof -
  have ev: "hitsOf (fst (search_post wikiService 0 (searchRequest wikiConfig ''reset'' 3))) = []"
    "\<not> searchFault (fst (search_post wikiService 0 (searchRequest wikiConfig ''reset'' 3)))"
    by code_simp+
  show ?thesis
    using ev reset_password_keywords [of wikiConfig wikiService 0 3 4000] by simp
qed

text \<open>
  C6. For a call of \<open>search_documents\<close> whose arguments are an object with a string
  \<open>query\<close>, the handler runs \<open>searchDocuments\<close> with \<open>top_k = 3\<close> when \<open>args.top_k\<close> is not a
  number and \<open>max_chars = 4000\<close> when \<open>args.max_chars\<close> is not a number, and with the
  number given otherwise, whatever its value: no bound is applied, and every upstream
  search call carries that \<open>top_k\<close> as its limit.
\<close>

theorem handleCallTool_defaults:
  assumes "tool_name request = ''search_documents''"
    and "truthy (arguments request)" and "typeof (arguments request) = ''object''"
    and "getProp (arguments request) ''query'' = JStr query"
  shows "\<exists>topK maxChars.
           handleCallTool cfg up w request
             = respond (searchDocuments cfg up w query topK maxChars)
           \<and> (typeof (getProp (arguments request) ''top_k'') \<noteq> ''number'' \<longrightarrow> topK = 3)
           \<and> (\<forall>n. getProp (arguments request) ''top_k'' = JNum n \<longrightarrow> topK = n)
           \<and> (typeof (getProp (arguments request) ''max_chars'') \<noteq> ''number''
                \<longrightarrow> maxChars = 4000)
           \<and> (\<forall>n. getProp (arguments request) ''max_chars'' = JNum n \<longrightarrow> maxChars = n)
           \<and> (\<forall>c\<in>set (searchCalls (snd (snd (handleCallTool cfg up w request)))).
                sr_limit (fst c) = topK)"
proof -
  let ?topK = "case getProp (arguments request) ''top_k'' of JNum n \<Rightarrow> n | _ \<Rightarrow> 3"
  let ?maxChars = "case getProp (arguments request) ''max_chars'' of JNum n \<Rightarrow> n | _ \<Rightarrow> 4000"
  have h: "handleCallTool cfg up w request
           = respond (searchDocuments cfg up w query ?topK ?maxChars)"
    using assms by (simp add: handleCallTool_def Let_def)
  have t: "typeof (getProp (arguments request) ''top_k'') \<noteq> ''number'' \<longrightarrow> ?topK = 3"
    by (cases "getProp (arguments request) ''top_k''") simp_all
  have m: "typeof (getProp (arguments request) ''max_chars'') \<noteq> ''number''
           \<longrightarrow> ?maxChars = 4000"
    by (cases "getProp (arguments request) ''max_chars''") simp_all
  have l: "\<forall>c\<in>set (searchCalls (snd (snd (handleCallTool cfg up w request)))).
             sr_limit (fst c) = ?topK"
    unfolding h respond_events by (rule searchDocuments_limits)
  show ?thesis
    apply (rule exI [of _ ?topK])
    apply (rule exI [of _ ?maxChars])
    using h t m l by simp
qed

theorem handleCallTool_defaults_witness:
  "handleCallTool wikiConfig wikiService 0 exampleRequest
     = respond (searchDocuments wikiConfig wikiService 0 ''password'' 50 4000)
   \<and> map (\<lambda>c. sr_limit (fst c))
       (searchCalls (snd (snd (handleCallTool wikiConfig wikiService 0 exampleRequest)))) = [50]"
proof -
  have a: "tool_name exampleRequest = ''search_documents''"
    "truthy (arguments exampleRequest)" "typeof (arguments exampleRequest) = ''object''"
    "getProp (arguments exampleRequest) ''query'' = JStr ''password''"
    by (simp_all add: exampleRequest_def)
  have b: "getProp (arguments exampleRequest) ''top_k'' = JNum 50"
    "typeof (getProp (arguments exampleRequest) ''max_chars'') \<noteq> ''number''"
    by (simp_all add: exampleRequest_def)
  from handleCallTool_defaults [OF a, of wikiConfig wikiService 0] b
  have "handleCallTool wikiConfig wikiService 0 exampleRequest
     = respond (searchDocuments wikiConfig wikiService 0 ''password'' 50 4000)"
    by auto
  moreover have "map (\<lambda>c. sr_limit (fst c))
       (searchCalls (snd (snd (respond (searchDocuments wikiConfig wikiService 0 ''password'' 50 4000))))) = [50]"
    by code_simp
  ultimately show ?thesis by simp
qed

text \<open>
  C7. A call for a tool other than \<open>search_documents\<close> is answered with a method-not-found
  error that quotes the name; otherwise arguments that are missing or not an object are
  answered with an invalid-params error; otherwise a \<open>query\<close> that is not a string is
  answered with an invalid-params error. In each case no upstream call has been made: the
  record of calls is empty and the service is in the state it was in.
\<close>

theorem handleCallTool_rejects:
  "(tool_name request \<noteq> ''search_documents'' \<longrightarrow>
      handleCallTool cfg up w request
        = (Inl (McpError MethodNotFound (''Unknown tool: '' @ tool_name request)), w, []))
   \<and> (tool_name request = ''search_documents''
        \<and> (\<not> truthy (arguments request) \<or> typeof (arguments request) \<noteq> ''object'') \<longrightarrow>
      handleCallTool cfg up w request
        = (Inl (McpError InvalidParams ''Arguments must be an object''), w, []))
   \<and> (tool_name request = ''search_documents''
        \<and> truthy (arguments request) \<and> typeof (arguments request) = ''object''
        \<and> typeof (getProp (arguments request) ''query'') \<noteq> ''string'' \<longrightarrow>
      handleCallTool cfg up w request
        = (Inl (McpError InvalidParams ''Query must be a string''), w, []))
   \<and> (tool_name request = ''search_documents''
        \<and> (\<forall>kvs. arguments request \<noteq> JObj kvs) \<longrightarrow>
      (\<exists>message. handleCallTool cfg up w request
        = (Inl (McpError InvalidParams message), w, [])))"
proof (intro conjI impI)
  assume "tool_name request \<noteq> ''search_documents''"
  then show "handleCallTool cfg up w request
        = (Inl (McpError MethodNotFound (''Unknown tool: '' @ tool_name request)), w, [])"
    by (simp add: handleCallTool_def)
next
  assume "tool_name request = ''search_documents''
        \<and> (\<not> truthy (arguments request) \<or> typeof (arguments request) \<noteq> ''object'')"
  then show "handleCallTool cfg up w request
        = (Inl (McpError InvalidParams ''Arguments must be an object''), w, [])"
    by (auto simp: handleCallTool_def)
next
  assume a: "tool_name request = ''search_documents''
        \<and> truthy (arguments request) \<and> typeof (arguments request) = ''object''
        \<and> typeof (getProp (arguments request) ''query'') \<noteq> ''string''"
  then show "handleCallTool cfg up w request
        = (Inl (McpError InvalidParams ''Query must be a string''), w, [])"
    by (cases "getProp (arguments request) ''query''")
       (simp_all add: handleCallTool_def Let_def)
next
  assume a: "tool_name request = ''search_documents''
        \<and> (\<forall>kvs. arguments request \<noteq> JObj kvs)"
  then show "\<exists>message. handleCallTool cfg up w request
        = (Inl (McpError InvalidParams message), w, [])"
    by (cases "arguments request") (simp_all add: handleCallTool_def Let_def)
qed

theorem handleCallTool_rejects_witness:
  "handleCallTool wikiConfig wikiService 0 \<lparr>tool_name = ''delete_documents'', arguments = JObj []\<rparr>
     = (Inl (McpError MethodNotFound ''Unknown tool: delete_documents''), 0, [])
   \<and> handleCallTool wikiConfig wikiService 0 \<lparr>tool_name = ''search_documents'', arguments = JUndefined\<rparr>
     = (Inl (McpError InvalidParams ''Arguments must be an object''), 0, [])
   \<and> handleCallTool wikiConfig wikiService 0 \<lparr>tool_name = ''search_documents'', arguments = JObj []\<rparr>
     = (Inl (McpError InvalidParams ''Query must be a string''), 0, [])"
  using handleCallTool_rejects [of "\<lparr>tool_name = ''delete_documents'', arguments = JObj []\<rparr>"
      wikiConfig wikiService 0]
    handleCallTool_rejects [of "\<lparr>tool_name = ''search_documents'', arguments = JUndefined\<rparr>"
      wikiConfig wikiService 0]
    handleCallTool_rejects [of "\<lparr>tool_name = ''search_documents'', arguments = JObj []\<rparr>"
      wikiConfig wikiService 0]
  by simp

text \<open>
  C8. \<open>getDocument\<close> never throws, and returns \<open>null\<close> when its upstream call is rejected
  or comes back with no body. When \<open>searchDocuments\<close> returns documents, there is one
  document and one detail fetch for each hit of the last search call, in the order of the
  hits; the document of a hit whose fetch failed has the hit's own context, cut at
  \<open>maxChars\<close>, as its text, and the document of a hit whose fetch gave a document has that
  document's text, cut at \<open>maxChars\<close>, whatever the other fetches gave. When
  \<open>searchDocuments\<close> raises an error, the last search call was rejected or ill-formed: no
  answer to a detail fetch makes the search fail.
\<close>

theorem detail_fetch_failure_is_local:
  "(\<exists>v w1 e. getDocument cfg up w documentId = (Inr v, w1, e))
   \<and> (fetchFailed (fst (info_post up w (infoRequest cfg documentId))) \<longrightarrow>
        fst (getDocument cfg up w documentId) = Inr FNull)
   \<and> (\<forall>documents w' evs.
        searchDocuments cfg up w query topK maxChars = (Inr documents, w', evs)
        \<and> documents \<noteq> [] \<longrightarrow>
          length documents = length (hitsOf (snd (last (searchCalls evs))))
          \<and> length (infoCalls evs) = length documents
          \<and> (\<forall>i<length documents.
                (\<exists>doc. hit_document (hitsOf (snd (last (searchCalls evs))) ! i) = Some doc
                   \<and> fst (infoCalls evs ! i) = infoRequest cfg (doc_id doc))
                \<and> (fetchFailed (snd (infoCalls evs ! i)) \<longrightarrow>
                     res_text (documents ! i)
                       = substring0
                           (js_or (hit_context (hitsOf (snd (last (searchCalls evs))) ! i)) [])
                           maxChars)
                \<and> (\<forall>t. snd (infoCalls evs ! i) = InfoResolved (Some (FDocument t)) \<longrightarrow>
                     res_text (documents ! i) = substring0 (js_or t []) maxChars)))
   \<and> (\<forall>e w' evs.
        searchDocuments cfg up w query topK maxChars = (Inl e, w', evs) \<longrightarrow>
          searchCalls evs \<noteq> [] \<and> searchFault (snd (last (searchCalls evs))))"
proof (intro conjI allI impI)
  show "\<exists>v w1 e. getDocument cfg up w documentId = (Inr v, w1, e)"
    by (rule getDocument_returns)
next
  assume "fetchFailed (fst (info_post up w (infoRequest cfg documentId)))"
  then show "fst (getDocument cfg up w documentId) = Inr FNull"
    by (rule getDocument_failed)
next
  fix documents w' evs
  assume a: "searchDocuments cfg up w query topK maxChars = (Inr documents, w', evs)
        \<and> documents \<noteq> []"
  note f = searchLoop_fetched [OF searchDocuments_Inr, of cfg up w query topK maxChars
      documents w' evs, unfolded fetchedResult_def]
  show "length documents = length (hitsOf (snd (last (searchCalls evs))))"
    using f a by blast
  show "length (infoCalls evs) = length documents"
    using f a by blast
  fix i
  assume i: "i < length documents"
  show "\<exists>doc. hit_document (hitsOf (snd (last (searchCalls evs))) ! i) = Some doc
                   \<and> fst (infoCalls evs ! i) = infoRequest cfg (doc_id doc)"
    using f a i by blast
  show "res_text (documents ! i)
          = substring0 (js_or (hit_context (hitsOf (snd (last (searchCalls evs))) ! i)) [])
              maxChars"
    if "fetchFailed (snd (infoCalls evs ! i))"
    using f a i that by blast
  show "res_text (documents ! i) = substring0 (js_or t []) maxChars"
    if "snd (infoCalls evs ! i) = InfoResolved (Some (FDocument t))" for t
    using f a i that by blast
next
  fix e w' evs
  assume a: "searchDocuments cfg up w query topK maxChars = (Inl e, w', evs)"
  from searchDocuments_Inl [OF a] obtain e'
    where "searchLoop cfg up topK maxChars w (extractKeywords query) [] = (Inl e', w', evs)"
    by blast
  from searchLoop_failure [OF this]
  show "searchCalls evs \<noteq> []" "searchFault (snd (last (searchCalls evs)))"
    by simp_all
qed

theorem detail_fetch_failure_is_local_witness:
  "map (\<lambda>c. fetchFailed (snd c))
     (infoCalls (snd (snd (searchDocuments wikiConfig wikiService 0 ''password'' 3 8))))
     = [False, True]
   \<and> fst (searchDocuments wikiConfig wikiService 0 ''password'' 3 8)
     = Inr [\<lparr>res_id = ''d1'', res_title = ''Password guide'', res_text = ''Choose a'',
              res_url = ''https://wiki.example.com//doc/guide-abc''\<rparr>,
            \<lparr>res_id = ''d2'', res_title = [], res_text = ''password'',
              res_url = ''https://wiki.example.com//doc/d2''\<rparr>]
   \<and> fst (getDocument wikiConfig wikiService 0 (Some ''d2'')) = Inr FNull"
proof -
  have ev: ?thesis by code_simp
  show ?thesis
    using ev detail_fetch_failure_is_local [of wikiConfig wikiService 0 "Some ''d2''"
        "''password''" 3 8]
    by simp
qed

text \<open>
  C9. For every query that consists only of stopwords, tokens of at most two characters
  and tokens with no alphanumeric character, its tokens being those of the lowercased
  query, as the extraction reads them, \<open>extractKeywords\<close> returns no keyword, and
  \<open>searchDocuments\<close> returns the empty list, with no error, no upstream call and the
  service in the state it was in.
\<close>

theorem no_keywords_no_search:
  assumes "list_all spec_dropped (spec_tokens (toLowerCase query))"
  shows "extractKeywords query = []
         \<and> searchDocuments cfg up w query topK maxChars = (Inr [], w, [])"
proof -
  from assms have "extractKeywords query = []" by (rule no_keywords)
  then show ?thesis by (simp add: searchDocuments_def)
qed

theorem no_keywords_no_search_witness:
  "list_all spec_dropped (spec_tokens (toLowerCase ''How do I  ... ?? to it''))
   \<and> extractKeywords ''How do I  ... ?? to it'' = []
   \<and> searchDocuments wikiConfig wikiService 0 ''How do I  ... ?? to it'' 3 4000 = (Inr [], 0, [])"
proof -
  have "list_all spec_dropped (spec_tokens (toLowerCase ''How do I  ... ?? to it''))"
    by code_simp
  then show ?thesis
    using no_keywords_no_search [of "''How do I  ... ?? to it''" wikiConfig wikiService 0 3 4000]
    by simp
qed

text \<open>
  C10. When the search call for a keyword is resolved with a body whose \<open>data\<close> field is
  absent or holds no array, the loop goes on as if the call had found nothing: it moves to
  the next keyword with its list of documents still empty, the record gains that search
  call and no detail fetch, and no error is raised for it.
\<close>

theorem search_without_array_is_no_hit:
  assumes "search_post up w (searchRequest cfg k topK) = (SearchResolved (Some d), w1)"
    and "\<forall>hits. d \<noteq> DataArray hits"
  shows "searchLoop cfg up topK maxChars w (k # ks) []
         = (case searchLoop cfg up topK maxChars w1 ks [] of
              (out, w', evs) \<Rightarrow>
                (out, w', SearchCall (searchRequest cfg k topK) (SearchResolved (Some d)) # evs))"
  using assms by (cases d) (simp_all add: Let_def)

theorem search_without_array_is_no_hit_witness:
  "search_post wikiService 0 (searchRequest wikiConfig ''wiki'' 3)
     = (SearchResolved (Some DataAbsent), 1)
   \<and> searchLoop wikiConfig wikiService 3 4000 0 [''wiki'', ''reset''] []
     = (Inr [], 2,
        [SearchCall (searchRequest wikiConfig ''wiki'' 3) (SearchResolved (Some DataAbsent)),
         SearchCall (searchRequest wikiConfig ''reset'' 3) (SearchResolved (Some (DataArray [])))])"
proof -
  have p: "search_post wikiService 0 (searchRequest wikiConfig ''wiki'' 3)
     = (SearchResolved (Some DataAbsent), 1)"
    by code_simp
  have d: "\<forall>hits. DataAbsent \<noteq> DataArray hits" by simp
  have r: "searchLoop wikiConfig wikiService 3 4000 1 [''reset''] []
     = (Inr [], 2,
        [SearchCall (searchRequest wikiConfig ''reset'' 3) (SearchResolved (Some (DataArray [])))])"
    by code_simp
  show ?thesis
    using p search_without_array_is_no_hit [OF p d, of 4000 "[''reset'']"] r by simp
qed

end
